theory Spec2Isabelle
  imports Main "HOL-Library.Multiset"
begin

section \<open>Pesten: the card game engine of script.js\<close>

text \<open>
  The embedding follows script.js class by class. JavaScript values that may be
  \<^verbatim>\<open>undefined\<close> or \<^verbatim>\<open>null\<close> are options (\<open>None\<close> for both), a property access
  on \<^verbatim>\<open>undefined\<close> is the outcome \<open>TypeError\<close>, and every method of \<^verbatim>\<open>Game\<close> returns
  its outcome together with the state it leaves behind, since a JavaScript exception does
  not undo the assignments made before it.

  \<^verbatim>\<open>Math.floor(Math.random() * n)\<close> is a number in \<open>{0..<n}\<close>. The random source is a
  parameter \<open>rnd\<close>, the sequence of raw outcomes, and the state counts the calls made so
  far; the \<open>k\<close>-th call with bound \<open>n\<close> yields \<open>rnd k mod n\<close>.

  Rendering, alerts and the notification texts are presentation and are left out, with one
  exception: the text of the winner banner, which is the only place where the code records
  who has won. A \<^verbatim>\<open>setTimeout\<close> that schedules \<^verbatim>\<open>playAiTurn\<close> is not modelled; \<open>playAiTurn\<close>
  is an operation of its own that may be run in any state.
\<close>

subsection \<open>JavaScript arrays\<close>

text \<open>\<^verbatim>\<open>xs[i]\<close> for an integer \<open>i\<close>: \<^verbatim>\<open>undefined\<close> outside the array.\<close>

definition js_get :: "'a list \<Rightarrow> int \<Rightarrow> 'a option" where
  "js_get xs i = (if 0 \<le> i \<and> i < int (length xs) then Some (xs ! nat i) else None)"

text \<open>
  \<^verbatim>\<open>xs.splice(i, 1)\<close>: a negative start counts from the end and is clamped to 0, a start
  beyond the end removes nothing. The result is the array of removed elements and the
  array that is left.
\<close>

definition splice1 :: "'a list \<Rightarrow> int \<Rightarrow> 'a list \<times> 'a list" where
  "splice1 xs i =
     (let n = int (length xs);
          start = nat (if i < 0 then max (n + i) 0 else min i n)
      in (take 1 (drop start xs), take start xs @ drop (Suc start) xs))"

datatype 'a outcome = Returned 'a | TypeError

subsection \<open>Constants\<close>

definition SUITS :: "string list" where
  "SUITS = [''H'', ''S'', ''R'', ''K'']"

definition VALUES :: "string list" where
  "VALUES = [''2'', ''3'', ''4'', ''5'', ''6''] @ [''7'', ''8'', ''9'', ''10'', ''J'', ''Q'', ''K'', ''A'']"

subsection \<open>class Card\<close>

record card =
  suit :: string
  cvalue :: string

definition Card :: "string \<Rightarrow> string \<Rightarrow> card" where
  "Card s v = \<lparr>suit = s, cvalue = v\<rparr>"

subsection \<open>class Deck\<close>

text \<open>The deck is its array \<^verbatim>\<open>cards\<close>; the last element is the one drawn next.\<close>

type_synonym cards = "card option list"

definition Deck_reset :: "card list" where
  "Deck_reset =
     concat (map (\<lambda>s. map (\<lambda>v. Card s v) VALUES) SUITS) @ [Card ''J'' ''X'', Card ''J'' ''X'']"

text \<open>
  The loop of \<^verbatim>\<open>shuffle\<close>, from index \<open>i\<close> down to 1; \<open>k\<close> is the number of calls of
  \<^verbatim>\<open>Math.random\<close> made before.
\<close>

fun shuffle_from :: "(nat \<Rightarrow> nat) \<Rightarrow> nat \<Rightarrow> nat \<Rightarrow> 'a list \<Rightarrow> 'a list \<times> nat" where
  "shuffle_from rnd k 0 cs = (cs, k)"
| "shuffle_from rnd k (Suc i) cs =
     (let j = rnd k mod (Suc i + 1)
      in shuffle_from rnd (Suc k) i (cs[Suc i := cs ! j, j := cs ! Suc i]))"

definition Deck_shuffle :: "(nat \<Rightarrow> nat) \<Rightarrow> nat \<Rightarrow> 'a list \<Rightarrow> 'a list \<times> nat" where
  "Deck_shuffle rnd k cs = shuffle_from rnd k (length cs - 1) cs"

text \<open>\<^verbatim>\<open>pop\<close>: the drawn value (\<^verbatim>\<open>undefined\<close> from an empty array) and the rest.\<close>

definition Deck_draw :: "cards \<Rightarrow> card option \<times> cards" where
  "Deck_draw cs = (if cs = [] then (None, []) else (last cs, butlast cs))"

definition Deck_addCards :: "cards \<Rightarrow> cards \<Rightarrow> cards" where
  "Deck_addCards cs new = cs @ new"

definition Deck_count :: "cards \<Rightarrow> nat" where
  "Deck_count cs = length cs"

subsection \<open>class Player\<close>

record player =
  player_id :: int
  name :: string
  hand :: "card list"

definition Player :: "int \<Rightarrow> string \<Rightarrow> player" where
  "Player i n = \<lparr>player_id = i, name = n, hand = []\<rparr>"

definition receiveCard :: "player \<Rightarrow> card option \<Rightarrow> player" where
  "receiveCard p c = (case c of None \<Rightarrow> p | Some x \<Rightarrow> p\<lparr>hand := hand p @ [x]\<rparr>)"

definition playCard :: "player \<Rightarrow> int \<Rightarrow> card option \<times> player" where
  "playCard p index =
     (let (removed, rest) = splice1 (hand p) index
      in (js_get removed 0, p\<lparr>hand := rest\<rparr>))"

definition removeOneRandomCard ::
  "(nat \<Rightarrow> nat) \<Rightarrow> nat \<Rightarrow> player \<Rightarrow> card option \<times> player \<times> nat" where
  "removeOneRandomCard rnd k p =
     (if length (hand p) = 0 then (None, p, k)
      else let index = int (rnd k mod length (hand p));
               (removed, rest) = splice1 (hand p) index
           in (js_get removed 0, p\<lparr>hand := rest\<rparr>, Suc k))"

subsection \<open>class Game\<close>

record game =
  deck :: cards
  players :: "player list"
  discardPile :: cards
  currentPlayerIndex :: int
  direction :: int
  gameOver :: bool
  winnerText :: string
  randomCalls :: nat

definition getTopCard :: "game \<Rightarrow> card option" where
  "getTopCard g =
     (case js_get (discardPile g) (int (length (discardPile g)) - 1) of
        None \<Rightarrow> None
      | Some c \<Rightarrow> c)"

definition isValidMove :: "game \<Rightarrow> card option \<Rightarrow> bool outcome" where
  "isValidMove g crd =
     (case getTopCard g of
        None \<Rightarrow> TypeError
      | Some topc \<Rightarrow>
          if cvalue topc = ''X'' \<or> cvalue topc = ''J'' then Returned True
          else (case crd of
                  None \<Rightarrow> TypeError
                | Some c \<Rightarrow>
                    if cvalue c = ''X'' \<or> cvalue c = ''J'' then Returned True
                    else if cvalue c = cvalue topc then Returned True
                    else if suit c = suit topc then Returned True
                    else Returned False))"

text \<open>
  \<^verbatim>\<open>handleWin\<close> sets the flag first and reads the winner's name afterwards.
\<close>

definition handleWin :: "game \<Rightarrow> int \<Rightarrow> unit outcome \<times> game" where
  "handleWin g winnerIndex =
     (let g1 = g\<lparr>gameOver := True\<rparr>
      in case js_get (players g1) winnerIndex of
           None \<Rightarrow> (TypeError, g1)
         | Some w \<Rightarrow> (Returned (), g1\<lparr>winnerText := name w @ '' Heeft Gewonnen!''\<rparr>))"

definition advancePointer :: "game \<Rightarrow> game" where
  "advancePointer g =
     (let i0 = currentPlayerIndex g + direction g;
          i1 = (if i0 \<ge> 4 then 0 else i0);
          i2 = (if i1 < 0 then 3 else i1)
      in g\<lparr>currentPlayerIndex := i2\<rparr>)"

definition nextTurn :: "game \<Rightarrow> unit outcome \<times> game" where
  "nextTurn g =
     (if gameOver g then (Returned (), g)
      else case js_get (players g) (currentPlayerIndex g) of
             None \<Rightarrow> (TypeError, g)
           | Some p \<Rightarrow>
               if length (hand p) = 0 then handleWin g (currentPlayerIndex g)
               else let i0 = currentPlayerIndex g + direction g;
                        i1 = (if i0 \<ge> 4 then 0 else i0);
                        i2 = (if i1 < 0 then 3 else i1)
                    in (Returned (), g\<lparr>currentPlayerIndex := i2\<rparr>))"

definition recycleDeck :: "(nat \<Rightarrow> nat) \<Rightarrow> game \<Rightarrow> game" where
  "recycleDeck rnd g =
     (if length (discardPile g) \<le> 1 then g
      else let topc = last (discardPile g);
               oldCards = butlast (discardPile g);
               (cs, k) = Deck_shuffle rnd (randomCalls g) (Deck_addCards (deck g) oldCards)
           in g\<lparr>deck := cs, discardPile := [topc], randomCalls := k\<rparr>)"

text \<open>
  One draw into the hand of \<^verbatim>\<open>players[index]\<close>, as \<^verbatim>\<open>executeDraw\<close> does it: the card
  is popped before the player is looked up.
\<close>

definition executeDraw :: "(nat \<Rightarrow> nat) \<Rightarrow> game \<Rightarrow> int \<Rightarrow> unit outcome \<times> game" where
  "executeDraw rnd g playerIndex =
     (let g1 = (if Deck_count (deck g) = 0 then recycleDeck rnd g else g);
          (crd, rest) = Deck_draw (deck g1);
          g2 = g1\<lparr>deck := rest\<rparr>
      in case js_get (players g2) playerIndex of
           None \<Rightarrow> (TypeError, g2)
         | Some p \<Rightarrow>
             nextTurn (g2\<lparr>players := (players g2)[nat playerIndex := receiveCard p crd]\<rparr>))"

definition handleDrawCard :: "(nat \<Rightarrow> nat) \<Rightarrow> game \<Rightarrow> unit outcome \<times> game" where
  "handleDrawCard rnd g =
     (if currentPlayerIndex g \<noteq> 0 then (Returned (), g)
      else executeDraw rnd g (currentPlayerIndex g))"

text \<open>
  The loop of \<^verbatim>\<open>forceDraw\<close>; here the player is looked up before the card is popped,
  since the callee of a method call is evaluated before its arguments.
\<close>

fun forceDraw_loop :: "(nat \<Rightarrow> nat) \<Rightarrow> int \<Rightarrow> nat \<Rightarrow> game \<Rightarrow> unit outcome \<times> game" where
  "forceDraw_loop rnd victimIndex 0 g = (Returned (), g)"
| "forceDraw_loop rnd victimIndex (Suc n) g =
     (let g1 = (if Deck_count (deck g) = 0 then recycleDeck rnd g else g)
      in case js_get (players g1) victimIndex of
           None \<Rightarrow> (TypeError, g1)
         | Some p \<Rightarrow>
             let (crd, rest) = Deck_draw (deck g1)
             in forceDraw_loop rnd victimIndex n
                  (g1\<lparr>deck := rest,
                      players := (players g1)[nat victimIndex := receiveCard p crd]\<rparr>))"

definition forceDraw :: "(nat \<Rightarrow> nat) \<Rightarrow> game \<Rightarrow> nat \<Rightarrow> unit outcome \<times> game" where
  "forceDraw rnd g amount = forceDraw_loop rnd (currentPlayerIndex g) amount g"

text \<open>The first loop of \<^verbatim>\<open>handlePassCardRule\<close>: every player gives up a card.\<close>

fun removeEach ::
  "(nat \<Rightarrow> nat) \<Rightarrow> nat \<Rightarrow> player list \<Rightarrow> card option list \<times> player list \<times> nat" where
  "removeEach rnd k [] = ([], [], k)"
| "removeEach rnd k (p # ps) =
     (let (c, p', k') = removeOneRandomCard rnd k p;
          (cs, ps', k'') = removeEach rnd k' ps
      in (c # cs, p' # ps', k''))"

text \<open>
  The body of its second loop. \<open>nextIndex\<close> is within the array for every direction, so
  the receiving player exists.
\<close>

definition pass_step :: "int \<Rightarrow> card option list \<Rightarrow> player list \<Rightarrow> nat \<Rightarrow> player list" where
  "pass_step dir passedCards ps i =
     (let count = int (length ps);
          n0 = int i + dir;
          n1 = (if n0 \<ge> count then 0 else n0);
          nextIndex = (if n1 < 0 then count - 1 else n1)
      in case passedCards ! i of
           None \<Rightarrow> ps
         | Some c \<Rightarrow> ps[nat nextIndex := receiveCard (ps ! nat nextIndex) (Some c)])"

definition handlePassCardRule :: "(nat \<Rightarrow> nat) \<Rightarrow> game \<Rightarrow> game" where
  "handlePassCardRule rnd g =
     (let (passedCards, ps, k) = removeEach rnd (randomCalls g) (players g)
      in g\<lparr>players := foldl (pass_step (direction g) passedCards) ps [0..<length ps],
           randomCalls := k\<rparr>)"

text \<open>The end of \<^verbatim>\<open>handleCardPlay\<close>: \<^verbatim>\<open>this.nextTurn(); return true\<close>.\<close>

definition nextTurn_true :: "unit outcome \<times> game \<Rightarrow> bool option outcome \<times> game" where
  "nextTurn_true r =
     (case r of
        (TypeError, g) \<Rightarrow> (TypeError, g)
      | (Returned u, g) \<Rightarrow>
          (case nextTurn g of
             (TypeError, g') \<Rightarrow> (TypeError, g')
           | (Returned v, g') \<Rightarrow> (Returned (Some True), g')))"

text \<open>
  The \<^verbatim>\<open>switch\<close> of \<^verbatim>\<open>handleCardPlay\<close> on the value of the played card, with what
  follows it; \<open>g\<close> is the state after the card has gone to the discard pile.
\<close>

definition specialEffect :: "(nat \<Rightarrow> nat) \<Rightarrow> game \<Rightarrow> card \<Rightarrow> bool option outcome \<times> game" where
  "specialEffect rnd g c =
     (if cvalue c = ''2'' then nextTurn_true (forceDraw rnd (advancePointer g) 2)
      else if cvalue c = ''X'' then nextTurn_true (forceDraw rnd (advancePointer g) 5)
      else if cvalue c = ''8'' then nextTurn_true (Returned (), advancePointer g)
      else if cvalue c = ''A'' then nextTurn_true (Returned (), g\<lparr>direction := direction g * (- 1)\<rparr>)
      else if cvalue c = ''10'' then nextTurn_true (Returned (), handlePassCardRule rnd g)
      else if cvalue c = ''K'' then (Returned (Some True), g)
      else nextTurn_true (Returned (), g))"

text \<open>
  \<^verbatim>\<open>handleCardPlay\<close> returns \<^verbatim>\<open>undefined\<close> (\<open>None\<close>), \<^verbatim>\<open>false\<close> or \<^verbatim>\<open>true\<close>. It is an
  \<^verbatim>\<open>async\<close> function without \<^verbatim>\<open>await\<close>: its body runs at the call, and \<open>TypeError\<close> is
  the rejection of the promise it returns. The \<^verbatim>\<open>switch\<close> reads \<^verbatim>\<open>card.value\<close>, which
  fails when no card was at the index.
\<close>

definition handleCardPlay ::
  "(nat \<Rightarrow> nat) \<Rightarrow> game \<Rightarrow> int \<Rightarrow> int \<Rightarrow> bool option outcome \<times> game" where
  "handleCardPlay rnd g playerIndex cardIndex =
     (if gameOver g then (Returned None, g)
      else case js_get (players g) playerIndex of
        None \<Rightarrow> (TypeError, g)
      | Some p \<Rightarrow>
          let crd = js_get (hand p) cardIndex
          in (case isValidMove g crd of
               TypeError \<Rightarrow> (TypeError, g)
             | Returned False \<Rightarrow> (Returned (Some False), g)
             | Returned True \<Rightarrow>
                 let p' = snd (playCard p cardIndex);
                     g1 = g\<lparr>players := (players g)[nat playerIndex := p'],
                            discardPile := discardPile g @ [crd]\<rparr>
                 in if length (hand p') = 0 then
                      (case handleWin g1 playerIndex of
                         (TypeError, g2) \<Rightarrow> (TypeError, g2)
                       | (Returned u, g2) \<Rightarrow> (Returned (Some True), g2))
                    else (case crd of
                      None \<Rightarrow> (TypeError, g1)
                    | Some c \<Rightarrow> specialEffect rnd g1 c)))"

text \<open>
  \<^verbatim>\<open>findIndex\<close> over the hand with \<^verbatim>\<open>isValidMove\<close> as the test: the first index that
  passes, or \<open>-1\<close>.
\<close>

fun findIndex_valid :: "game \<Rightarrow> card list \<Rightarrow> int \<Rightarrow> int outcome" where
  "findIndex_valid g [] i = Returned (- 1)"
| "findIndex_valid g (c # cs) i =
     (case isValidMove g (Some c) of
        TypeError \<Rightarrow> TypeError
      | Returned True \<Rightarrow> Returned i
      | Returned False \<Rightarrow> findIndex_valid g cs (i + 1))"

text \<open>
  \<^verbatim>\<open>playAiTurn\<close> does not await the promise of \<^verbatim>\<open>handleCardPlay\<close>, so a rejection there
  is not raised here.
\<close>

definition playAiTurn :: "(nat \<Rightarrow> nat) \<Rightarrow> game \<Rightarrow> unit outcome \<times> game" where
  "playAiTurn rnd g =
     (if gameOver g then (Returned (), g)
      else case js_get (players g) (currentPlayerIndex g) of
        None \<Rightarrow> (TypeError, g)
      | Some ai \<Rightarrow>
          (case findIndex_valid g (hand ai) 0 of
             TypeError \<Rightarrow> (TypeError, g)
           | Returned validCardIndex \<Rightarrow>
               if validCardIndex \<noteq> - 1 then
                 (Returned (), snd (handleCardPlay rnd g (currentPlayerIndex g) validCardIndex))
               else executeDraw rnd g (currentPlayerIndex g)))"

text \<open>One round of the deal: \<^verbatim>\<open>this.players.forEach(p => p.receiveCard(this.deck.draw()))\<close>.\<close>

fun deal_round :: "cards \<Rightarrow> player list \<Rightarrow> cards \<times> player list" where
  "deal_round cs [] = (cs, [])"
| "deal_round cs (p # ps) =
     (let (crd, rest) = Deck_draw cs;
          (cs', ps') = deal_round rest ps
      in (cs', receiveCard p crd # ps'))"

fun deal_rounds :: "nat \<Rightarrow> cards \<Rightarrow> player list \<Rightarrow> cards \<times> player list" where
  "deal_rounds 0 cs ps = (cs, ps)"
| "deal_rounds (Suc n) cs ps =
     (let (cs', ps') = deal_round cs ps in deal_rounds n cs' ps')"

definition init :: "(nat \<Rightarrow> nat) \<Rightarrow> game \<Rightarrow> game" where
  "init rnd g =
     (let (cs0, k) = Deck_shuffle rnd (randomCalls g) (deck g);
          ps0 = map (\<lambda>p. p\<lparr>hand := []\<rparr>) (players g);
          start = int (rnd k mod 4);
          (cs1, ps1) = deal_rounds 7 cs0 ps0;
          (crd, cs2) = Deck_draw cs1
      in g\<lparr>deck := cs2, players := ps1, discardPile := [] @ [crd],
           currentPlayerIndex := start, randomCalls := Suc k\<rparr>)"

text \<open>
  The constructor: the fields, then \<^verbatim>\<open>init\<close>. The banner is taken to be empty and the
  random source unused when the page is loaded.
\<close>

definition Game :: "(nat \<Rightarrow> nat) \<Rightarrow> game" where
  "Game rnd =
     init rnd
       \<lparr>deck = map Some Deck_reset,
        players = [Player 0 ''You'', Player 1 ''Player 1'', Player 2 ''Player 2'',
                   Player 3 ''Player 3''],
        discardPile = [],
        currentPlayerIndex = 0,
        direction = 1,
        gameOver = False,
        winnerText = [],
        randomCalls = 0\<rparr>"

subsection \<open>Notions used in the properties\<close>

text \<open>The cards in all hands, and every card of the game wherever it lies.\<close>

definition hands :: "player list \<Rightarrow> card list" where
  "hands ps = concat (map hand ps)"

definition all_cards :: "game \<Rightarrow> card option multiset" where
  "all_cards g = mset (deck g) + mset (discardPile g) + mset (map Some (hands (players g)))"

text \<open>The defined entries of an array.\<close>

fun somes :: "'a option list \<Rightarrow> 'a list" where
  "somes [] = []"
| "somes (None # xs) = somes xs"
| "somes (Some x # xs) = x # somes xs"

text \<open>
  The states a game can be in: the constructed game, and from there a click on a card
  or the play of a card by any seat (\<open>play\<close>: a card that is in the hand of the seat), a
  click on the deck, a draw by any seat, and a turn of the automatic player.
\<close>

inductive reachable :: "(nat \<Rightarrow> nat) \<Rightarrow> game \<Rightarrow> bool" for rnd :: "nat \<Rightarrow> nat" where
  start: "reachable rnd (Game rnd)"
| play: "reachable rnd g \<Longrightarrow> js_get (players g) seat = Some p \<Longrightarrow>
         0 \<le> i \<Longrightarrow> i < int (length (hand p)) \<Longrightarrow>
         reachable rnd (snd (handleCardPlay rnd g seat i))"
| click_deck: "reachable rnd g \<Longrightarrow> reachable rnd (snd (handleDrawCard rnd g))"
| draw: "reachable rnd g \<Longrightarrow> js_get (players g) seat = Some p \<Longrightarrow>
         reachable rnd (snd (executeDraw rnd g seat))"
| ai: "reachable rnd g \<Longrightarrow> reachable rnd (snd (playAiTurn rnd g))"

text \<open>A random source for the examples: every call of \<^verbatim>\<open>Math.random\<close> yields 0.\<close>

definition rnd0 :: "nat \<Rightarrow> nat" where
  "rnd0 k = 0"

text \<open>A random source that makes seat 1 the starting seat of a new game.\<close>

definition rnd1 :: "nat \<Rightarrow> nat" where
  "rnd1 k = (if k = 53 then 1 else 0)"

text \<open>
  A game near its end: it is the turn of seat 0, whose last card, the 2 of hearts, can go
  on the 3 of hearts; the other seats hold seven cards each and the remaining 31 cards
  are in the deck.
\<close>

definition endgame0 :: game where
  "endgame0 =
     \<lparr>deck = map Some (drop 23 Deck_reset),
      players = [(Player 0 ''You'')\<lparr>hand := [Card ''H'' ''2'']\<rparr>,
                 (Player 1 ''Player 1'')\<lparr>hand := take 7 (drop 2 Deck_reset)\<rparr>,
                 (Player 2 ''Player 2'')\<lparr>hand := take 7 (drop 9 Deck_reset)\<rparr>,
                 (Player 3 ''Player 3'')\<lparr>hand := take 7 (drop 16 Deck_reset)\<rparr>],
      discardPile = [Some (Card ''H'' ''3'')],
      currentPlayerIndex = 0,
      direction = 1,
      gameOver = False,
      winnerText = [],
      randomCalls = 0\<rparr>"

text \<open>The same game after seat 0 has played that card.\<close>

definition finished0 :: game where
  "finished0 = snd (handleCardPlay rnd0 endgame0 0 0)"

section \<open>Properties\<close>

subsection \<open>Shuffling, drawing and passing keep every card\<close>


lemma mset_butlast_last: "xs \<noteq> [] \<Longrightarrow> mset (butlast xs) + {#last xs#} = mset xs"
  by (induction xs) auto

lemma mset_remove_nth:
  "n < length xs \<Longrightarrow> mset (take n xs @ drop (Suc n) xs) + {#xs ! n#} = mset xs"
proof (induction xs arbitrary: n)
  case Nil
  then show ?case by simp
next
  case (Cons x xs)
  then show ?case by (cases n) auto
qed

lemma shuffle_from_mset:
  "i < length cs \<Longrightarrow> mset (fst (shuffle_from rnd k i cs)) = mset cs"
proof (induction i arbitrary: k cs)
  case 0
  then show ?case by simp
next
  case (Suc i)
  let ?j = "rnd k mod (Suc i + 1)"
  have "?j < Suc i + 1" by (rule mod_less_divisor) simp
  then have j: "?j < length cs" using Suc.prems by linarith
  have "mset (cs[Suc i := cs ! ?j, ?j := cs ! Suc i]) = mset cs"
    using Suc.prems j by (simp add: mset_swap)
  moreover have "i < length (cs[Suc i := cs ! ?j, ?j := cs ! Suc i])"
    using Suc.prems by simp
  ultimately show ?case using Suc.IH by (simp add: Let_def)
qed

lemma shuffle_from_calls: "snd (shuffle_from rnd k i cs) = k + i"
  by (induction i arbitrary: k cs) (simp_all add: Let_def)

lemma Deck_shuffle_mset: "mset (fst (Deck_shuffle rnd k cs)) = mset cs"
proof (cases cs)
  case Nil
  then show ?thesis by (simp add: Deck_shuffle_def)
next
  case (Cons a list)
  then show ?thesis by (simp add: Deck_shuffle_def shuffle_from_mset)
qed

lemma Deck_shuffle_length: "length (fst (Deck_shuffle rnd k cs)) = length cs"
  by (rule mset_eq_length) (rule Deck_shuffle_mset)

lemma Deck_shuffle_calls: "snd (Deck_shuffle rnd k cs) = k + (length cs - 1)"
  by (simp add: Deck_shuffle_def shuffle_from_calls)

lemma hands_update:
  "i < length ps \<Longrightarrow>
     mset (hands (ps[i := q])) + mset (hand (ps ! i)) = mset (hands ps) + mset (hand q)"
proof (induction ps arbitrary: i)
  case Nil
  then show ?case by simp
next
  case (Cons p ps)
  show ?case
  proof (cases i)
    case 0
    then show ?thesis by (simp add: hands_def)
  next
    case (Suc n)
    with Cons.prems have "n < length ps" by simp
    from Cons.IH [OF this] show ?thesis using Suc by (simp add: hands_def ac_simps)
  qed
qed

lemma hands_receive:
  "i < length ps \<Longrightarrow>
     mset (hands (ps[i := receiveCard (ps ! i) (Some c)])) = mset (hands ps) + {#c#}"
  using hands_update [of i ps "receiveCard (ps ! i) (Some c)"]
  by (simp add: receiveCard_def)


lemma js_get_Some: "js_get xs i = Some x \<longleftrightarrow> 0 \<le> i \<and> nat i < length xs \<and> x = xs ! nat i"
  by (auto simp: js_get_def)

lemma recycleDeck_players [simp]: "players (recycleDeck rnd g) = players g"
  by (simp add: recycleDeck_def Let_def case_prod_unfold)

lemma recycleDeck_fields [simp]:
  "currentPlayerIndex (recycleDeck rnd g) = currentPlayerIndex g"
  "direction (recycleDeck rnd g) = direction g"
  "gameOver (recycleDeck rnd g) = gameOver g"
  "winnerText (recycleDeck rnd g) = winnerText g"
  by (simp_all add: recycleDeck_def Let_def case_prod_unfold)

lemma recycleDeck_piles:
  "mset (deck (recycleDeck rnd g)) + mset (discardPile (recycleDeck rnd g)) =
     mset (deck g) + mset (discardPile g)"
proof (cases "length (discardPile g) \<le> 1")
  case True
  then show ?thesis by (simp add: recycleDeck_def)
next
  case False
  then have ne: "discardPile g \<noteq> []" by auto
  from mset_butlast_last [OF ne] show ?thesis using False
    by (simp add: recycleDeck_def Let_def case_prod_unfold Deck_shuffle_mset Deck_addCards_def
        ac_simps)
qed

lemma recycleDeck_all_cards [simp]: "all_cards (recycleDeck rnd g) = all_cards g"
  using recycleDeck_piles [of rnd g] by (simp add: all_cards_def)

lemma draw_into_all_cards:
  assumes "None \<notin># all_cards g" and "js_get (players g) v = Some p"
  shows "all_cards (g\<lparr>deck := snd (Deck_draw (deck g)),
                      players := (players g)[nat v := receiveCard p (fst (Deck_draw (deck g)))]\<rparr>)
         = all_cards g"
proof (cases "deck g = []")
  case True
  from assms(2) have "(players g)[nat v := p] = players g"
    by (simp add: js_get_Some)
  then show ?thesis using True by (simp add: Deck_draw_def receiveCard_def all_cards_def)
next
  case False
  from assms(2) have v: "nat v < length (players g)" and p: "p = players g ! nat v"
    by (simp_all add: js_get_Some)
  have "last (deck g) \<in> set (deck g)" using False by simp
  with assms(1) obtain c where c: "last (deck g) = Some c"
    by (cases "last (deck g)") (auto simp: all_cards_def)
  have d: "mset (deck g) = mset (butlast (deck g)) + {#Some c#}"
    using mset_butlast_last [OF False] c by simp
  show ?thesis using False c d hands_receive [OF v, of c] p
    by (simp add: Deck_draw_def all_cards_def)
qed


lemma handleWin_piles [simp]:
  "deck (snd (handleWin g i)) = deck g"
  "players (snd (handleWin g i)) = players g"
  "discardPile (snd (handleWin g i)) = discardPile g"
  by (simp_all add: handleWin_def Let_def split: option.splits)

lemma nextTurn_piles [simp]:
  "deck (snd (nextTurn g)) = deck g"
  "players (snd (nextTurn g)) = players g"
  "discardPile (snd (nextTurn g)) = discardPile g"
  by (simp_all add: nextTurn_def Let_def split: option.splits)

lemma advancePointer_piles [simp]:
  "deck (advancePointer g) = deck g"
  "players (advancePointer g) = players g"
  "discardPile (advancePointer g) = discardPile g"
  by (simp_all add: advancePointer_def Let_def)

lemma all_cards_cong:
  "deck g' = deck g \<Longrightarrow> players g' = players g \<Longrightarrow> discardPile g' = discardPile g \<Longrightarrow>
     all_cards g' = all_cards g"
  by (simp add: all_cards_def)

lemma nextTurn_true_piles [simp]:
  "deck (snd (nextTurn_true r)) = deck (snd r)"
  "players (snd (nextTurn_true r)) = players (snd r)"
  "discardPile (snd (nextTurn_true r)) = discardPile (snd r)"
proof -
  obtain x g where r: "r = (x, g)" by (cases r)
  obtain y g' where n: "nextTurn g = (y, g')" by (cases "nextTurn g")
  have "deck g' = deck g" "players g' = players g" "discardPile g' = discardPile g"
    using nextTurn_piles [of g] n by simp_all
  then show "deck (snd (nextTurn_true r)) = deck (snd r)"
    "players (snd (nextTurn_true r)) = players (snd r)"
    "discardPile (snd (nextTurn_true r)) = discardPile (snd r)"
    using r n by (simp_all add: nextTurn_true_def split: outcome.splits)
qed

lemma forceDraw_loop_all_cards:
  "None \<notin># all_cards g \<Longrightarrow>
     all_cards (snd (forceDraw_loop rnd v n g)) = all_cards g \<and>
     length (players (snd (forceDraw_loop rnd v n g))) = length (players g)"
proof (induction n arbitrary: g)
  case 0
  then show ?case by simp
next
  case (Suc n)
  define g1 where "g1 = (if Deck_count (deck g) = 0 then recycleDeck rnd g else g)"
  have a1: "all_cards g1 = all_cards g" and l1: "players g1 = players g"
    by (simp_all add: g1_def)
  show ?case
  proof (cases "js_get (players g1) v")
    case None
    then show ?thesis using a1 l1 by (simp add: g1_def [symmetric] Let_def)
  next
    case (Some p)
    define g2 where "g2 = g1\<lparr>deck := snd (Deck_draw (deck g1)),
        players := (players g1)[nat v := receiveCard p (fst (Deck_draw (deck g1)))]\<rparr>"
    have a2: "all_cards g2 = all_cards g"
      using draw_into_all_cards [of g1 v p] Suc.prems a1 Some by (simp add: g2_def)
    have l2: "length (players g2) = length (players g)" using l1 by (simp add: g2_def)
    have "forceDraw_loop rnd v (Suc n) g = forceDraw_loop rnd v n g2"
      using Some by (simp add: g1_def [symmetric] g2_def Let_def case_prod_unfold)
    then show ?thesis using Suc.IH [of g2] a2 l2 Suc.prems by simp
  qed
qed

lemma executeDraw_all_cards:
  assumes "None \<notin># all_cards g" and "js_get (players g) v = Some p"
  shows "all_cards (snd (executeDraw rnd g v)) = all_cards g \<and>
         length (players (snd (executeDraw rnd g v))) = length (players g)"
proof -
  define g1 where "g1 = (if Deck_count (deck g) = 0 then recycleDeck rnd g else g)"
  have a1: "all_cards g1 = all_cards g" and l1: "players g1 = players g"
    by (simp_all add: g1_def)
  define g2 where "g2 = g1\<lparr>deck := snd (Deck_draw (deck g1)),
        players := (players g1)[nat v := receiveCard p (fst (Deck_draw (deck g1)))]\<rparr>"
  have a2: "all_cards g2 = all_cards g"
    using draw_into_all_cards [of g1 v p] assms a1 l1 by (simp add: g2_def)
  have l2: "length (players g2) = length (players g)" using l1 by (simp add: g2_def)
  have "executeDraw rnd g v = nextTurn g2"
    using assms(2) l1
    by (simp add: executeDraw_def g1_def [symmetric] g2_def Let_def case_prod_unfold)
  then show ?thesis using a2 l2 all_cards_cong [of "snd (nextTurn g2)" g2] by simp
qed


lemma splice1_in_range:
  "0 \<le> i \<Longrightarrow> nat i < length xs \<Longrightarrow>
     splice1 xs i = ([xs ! nat i], take (nat i) xs @ drop (Suc (nat i)) xs)"
  by (auto simp: splice1_def Let_def min_def take_Suc_conv_app_nth Cons_nth_drop_Suc [symmetric]
      simp del: drop_Suc_Cons)

lemma removeOneRandomCard_mset:
  "removeOneRandomCard rnd k p = (c, p', k') \<Longrightarrow>
     mset (hand p') + mset (somes [c]) = mset (hand p)"
proof (cases "hand p = []")
  case True
  assume "removeOneRandomCard rnd k p = (c, p', k')"
  with True show ?thesis by (auto simp: removeOneRandomCard_def)
next
  case False
  assume r: "removeOneRandomCard rnd k p = (c, p', k')"
  let ?n = "rnd k mod length (hand p)"
  have n: "?n < length (hand p)" using False by simp
  have "splice1 (hand p) (int ?n) =
      ([hand p ! ?n], take ?n (hand p) @ drop (Suc ?n) (hand p))"
    using splice1_in_range [of "int ?n" "hand p"] n by simp
  with r False have "c = Some (hand p ! ?n)"
    and "hand p' = take ?n (hand p) @ drop (Suc ?n) (hand p)"
    by (auto simp: removeOneRandomCard_def Let_def js_get_def)
  then show ?thesis using mset_remove_nth [OF n] by simp
qed

lemma removeEach_mset:
  "removeEach rnd k ps = (cs, ps', k') \<Longrightarrow>
     length cs = length ps \<and> length ps' = length ps \<and>
     mset (hands ps') + mset (somes cs) = mset (hands ps)"
proof (induction ps arbitrary: k cs ps' k')
  case Nil
  then show ?case by (simp add: hands_def)
next
  case (Cons p ps)
  obtain c q k1 where r1: "removeOneRandomCard rnd k p = (c, q, k1)"
    by (cases "removeOneRandomCard rnd k p") auto
  obtain ds qs k2 where r2: "removeEach rnd k1 ps = (ds, qs, k2)"
    by (cases "removeEach rnd k1 ps") auto
  from Cons.prems r1 r2 have eq: "cs = c # ds" "ps' = q # qs" by simp_all
  from removeOneRandomCard_mset [OF r1] have m1: "mset (hand q) + mset (somes [c]) = mset (hand p)" .
  from Cons.IH [OF r2] have l: "length ds = length ps" "length qs = length ps"
    and m2: "mset (hands qs) + mset (somes ds) = mset (hands ps)" by simp_all
  have "mset (hands (q # qs)) + mset (somes (c # ds)) =
        (mset (hand q) + mset (somes [c])) + (mset (hands qs) + mset (somes ds))"
    by (cases c) (simp_all add: hands_def)
  also have "\<dots> = mset (hand p) + mset (hands ps)" by (simp only: m1 m2)
  also have "\<dots> = mset (hands (p # ps))" by (simp add: hands_def)
  finally show ?case using eq l by simp
qed

lemma pass_step_mset:
  assumes "ps \<noteq> []"
  shows "length (pass_step d cs ps i) = length ps \<and>
         mset (hands (pass_step d cs ps i)) = mset (hands ps) + mset (somes [cs ! i])"
proof (cases "cs ! i")
  case None
  then show ?thesis by (simp add: pass_step_def Let_def)
next
  case (Some c)
  let ?n = "nat (let count = int (length ps); n0 = int i + d;
                     n1 = (if n0 \<ge> count then 0 else n0)
                 in if n1 < 0 then count - 1 else n1)"
  have "?n < length ps" using assms by (cases ps) (auto simp: Let_def)
  from hands_receive [OF this, of c] show ?thesis using Some
    by (simp add: pass_step_def Let_def)
qed

lemma pass_fold_mset:
  "ps \<noteq> [] \<Longrightarrow>
     length (foldl (pass_step d cs) ps js) = length ps \<and>
     mset (hands (foldl (pass_step d cs) ps js)) =
       mset (hands ps) + mset (somes (map ((!) cs) js))"
proof (induction js arbitrary: ps)
  case Nil
  then show ?case by simp
next
  case (Cons j js)
  from pass_step_mset [OF Cons.prems, of d cs j]
  have l: "length (pass_step d cs ps j) = length ps"
    and m: "mset (hands (pass_step d cs ps j)) = mset (hands ps) + mset (somes [cs ! j])"
    by simp_all
  from l Cons.prems have "pass_step d cs ps j \<noteq> []" by auto
  from Cons.IH [OF this] l m show ?case by (cases "cs ! j") simp_all
qed

lemma handlePassCardRule_all_cards:
  "all_cards (handlePassCardRule rnd g) = all_cards g \<and>
   length (players (handlePassCardRule rnd g)) = length (players g)"
proof -
  obtain cs ps k where r: "removeEach rnd (randomCalls g) (players g) = (cs, ps, k)"
    by (cases "removeEach rnd (randomCalls g) (players g)") auto
  from removeEach_mset [OF r] have l: "length cs = length (players g)" "length ps = length (players g)"
    and m: "mset (hands ps) + mset (somes cs) = mset (hands (players g))" by simp_all
  show ?thesis
  proof (cases "ps = []")
    case True
    with l r show ?thesis by (simp add: handlePassCardRule_def all_cards_def)
  next
    case False
    have "map ((!) cs) [0..<length ps] = cs" using l map_nth [of cs] by simp
    with pass_fold_mset [OF False, of "direction g" cs "[0..<length ps]"] m l r
    show ?thesis by (simp add: handlePassCardRule_def all_cards_def)
  qed
qed


lemma all_cards_simps [simp]:
  "all_cards (snd (nextTurn_true r)) = all_cards (snd r)"
  "all_cards (snd (nextTurn g)) = all_cards g"
  "all_cards (snd (handleWin g i)) = all_cards g"
  "all_cards (advancePointer g) = all_cards g"
  "all_cards (g\<lparr>direction := d\<rparr>) = all_cards g"
  by (simp_all add: all_cards_def)

lemma forceDraw_all_cards:
  "None \<notin># all_cards g \<Longrightarrow>
     all_cards (snd (forceDraw rnd g n)) = all_cards g \<and>
     length (players (snd (forceDraw rnd g n))) = length (players g)"
  by (simp add: forceDraw_def forceDraw_loop_all_cards)

lemma playCard_in_range:
  "0 \<le> ci \<Longrightarrow> nat ci < length (hand p) \<Longrightarrow>
     playCard p ci = (Some (hand p ! nat ci),
                      p\<lparr>hand := take (nat ci) (hand p) @ drop (Suc (nat ci)) (hand p)\<rparr>)"
  by (simp add: playCard_def splice1_in_range js_get_def)

lemma play_all_cards:
  assumes "js_get (players g) pi = Some p" and "0 \<le> ci" and "nat ci < length (hand p)"
  shows "all_cards (g\<lparr>players := (players g)[nat pi := snd (playCard p ci)],
                      discardPile := discardPile g @ [js_get (hand p) ci]\<rparr>) = all_cards g"
proof -
  let ?q = "snd (playCard p ci)"
  from assms(1) have i: "nat pi < length (players g)" and p: "players g ! nat pi = p"
    by (simp_all add: js_get_Some)
  have A: "mset (hand p) = mset (hand ?q) + {#hand p ! nat ci#}"
    using mset_remove_nth [OF assms(3)] assms by (simp add: playCard_in_range)
  have "mset (hands ((players g)[nat pi := ?q])) + mset (hand p) =
        mset (hands (players g)) + mset (hand ?q)"
    using hands_update [OF i, of ?q] p by simp
  then have B: "mset (hands ((players g)[nat pi := ?q])) + {#hand p ! nat ci#} =
        mset (hands (players g))"
    unfolding A by simp
  have "image_mset Some (mset (hands ((players g)[nat pi := ?q])) + {#hand p ! nat ci#})
      = image_mset Some (mset (hands (players g)))"
    by (simp only: B)
  moreover have "js_get (hand p) ci = Some (hand p ! nat ci)"
    using assms(2,3) by (auto simp: js_get_def)
  ultimately show ?thesis by (simp add: all_cards_def)
qed

lemma specialEffect_all_cards:
  assumes "None \<notin># all_cards g"
  shows "all_cards (snd (specialEffect rnd g c)) = all_cards g \<and>
         length (players (snd (specialEffect rnd g c))) = length (players g)"
proof -
  from assms have "None \<notin># all_cards (advancePointer g)" by simp
  from forceDraw_all_cards [OF this] handlePassCardRule_all_cards [of rnd g]
  show ?thesis by (simp add: specialEffect_def)
qed

lemma handleCardPlay_all_cards:
  assumes U: "None \<notin># all_cards g"
    and P: "js_get (players g) pi = Some p" and C: "0 \<le> ci" "nat ci < length (hand p)"
  shows "all_cards (snd (handleCardPlay rnd g pi ci)) = all_cards g \<and>
         length (players (snd (handleCardPlay rnd g pi ci))) = length (players g)"
proof -
  define g1 where "g1 = g\<lparr>players := (players g)[nat pi := snd (playCard p ci)],
                      discardPile := discardPile g @ [js_get (hand p) ci]\<rparr>"
  have a1: "all_cards g1 = all_cards g" unfolding g1_def by (rule play_all_cards [OF P C])
  have l1: "length (players g1) = length (players g)" by (simp add: g1_def)
  from a1 U have U1: "None \<notin># all_cards g1" by simp
  have w: "all_cards (snd (handleWin g1 pi)) = all_cards g"
    "length (players (snd (handleWin g1 pi))) = length (players g)"
    using a1 l1 by simp_all
  have crd: "js_get (hand p) ci = Some (hand p ! nat ci)"
    using C by (auto simp: js_get_def)
  show ?thesis
  proof (cases "gameOver g")
    case True
    then show ?thesis by (simp add: handleCardPlay_def)
  next
    case False
    show ?thesis
    proof (cases "isValidMove g (js_get (hand p) ci)")
      case TypeError
      with False P show ?thesis by (simp add: handleCardPlay_def)
    next
      case (Returned b)
      show ?thesis
      proof (cases b)
        case False
        with Returned \<open>\<not> gameOver g\<close> P show ?thesis by (simp add: handleCardPlay_def)
      next
        case True
        show ?thesis
        proof (cases "length (hand (snd (playCard p ci))) = 0")
          case True
          obtain x g2 where h: "handleWin g1 pi = (x, g2)" by (cases "handleWin g1 pi")
          with w have "all_cards g2 = all_cards g" "length (players g2) = length (players g)"
            by simp_all
          with True Returned \<open>b\<close> \<open>\<not> gameOver g\<close> P h show ?thesis
            by (cases x) (simp_all add: handleCardPlay_def Let_def g1_def)
        next
          case False
          with True Returned \<open>b\<close> \<open>\<not> gameOver g\<close> P crd
          have "handleCardPlay rnd g pi ci = specialEffect rnd g1 (hand p ! nat ci)"
            by (simp add: handleCardPlay_def Let_def g1_def)
          with specialEffect_all_cards [OF U1] a1 l1 show ?thesis by simp
        qed
      qed
    qed
  qed
qed


lemma findIndex_valid_range:
  "findIndex_valid g cs i = Returned j \<Longrightarrow> j = - 1 \<or> (i \<le> j \<and> j < i + int (length cs))"
proof (induction cs arbitrary: i)
  case Nil
  then show ?case by simp
next
  case (Cons c cs)
  show ?case
  proof (cases "isValidMove g (Some c)")
    case TypeError
    with Cons.prems show ?thesis by simp
  next
    case (Returned b)
    show ?thesis
    proof (cases b)
      case True
      with Returned Cons.prems show ?thesis by simp
    next
      case False
      with Returned Cons.prems have "findIndex_valid g cs (i + 1) = Returned j" by simp
      from Cons.IH [OF this] show ?thesis by auto
    qed
  qed
qed

lemma playAiTurn_all_cards:
  assumes U: "None \<notin># all_cards g"
  shows "all_cards (snd (playAiTurn rnd g)) = all_cards g \<and>
         length (players (snd (playAiTurn rnd g))) = length (players g)"
proof (cases "gameOver g")
  case True
  then show ?thesis by (simp add: playAiTurn_def)
next
  case False
  show ?thesis
  proof (cases "js_get (players g) (currentPlayerIndex g)")
    case None
    with False show ?thesis by (simp add: playAiTurn_def)
  next
    case (Some ai)
    show ?thesis
    proof (cases "findIndex_valid g (hand ai) 0")
      case TypeError
      with False Some show ?thesis by (simp add: playAiTurn_def)
    next
      case (Returned j)
      show ?thesis
      proof (cases "j = - 1")
        case True
        with False Some Returned executeDraw_all_cards [OF U Some, of rnd]
        show ?thesis by (simp add: playAiTurn_def)
      next
        case n: False
        with findIndex_valid_range [OF Returned] have "0 \<le> j" "nat j < length (hand ai)"
          by auto
        from handleCardPlay_all_cards [OF U Some this, of rnd] False Some Returned n
        show ?thesis by (simp add: playAiTurn_def)
      qed
    qed
  qed
qed

lemma handleDrawCard_all_cards:
  assumes U: "None \<notin># all_cards g" and L: "length (players g) = 4"
  shows "all_cards (snd (handleDrawCard rnd g)) = all_cards g \<and>
         length (players (snd (handleDrawCard rnd g))) = length (players g)"
proof (cases "currentPlayerIndex g = 0")
  case True
  with L have "js_get (players g) (currentPlayerIndex g) = Some (players g ! 0)"
    by (simp add: js_get_def)
  from executeDraw_all_cards [OF U this, of rnd] True show ?thesis
    by (simp add: handleDrawCard_def)
next
  case False
  then show ?thesis by (simp add: handleDrawCard_def)
qed

lemma deal_round_deck: "fst (deal_round cs ps) = take (length cs - length ps) cs"
proof (induction ps arbitrary: cs)
  case Nil
  then show ?case by simp
next
  case (Cons p ps)
  show ?case
  proof (cases "cs = []")
    case True
    then show ?thesis using Cons.IH [of "[]"] by (simp add: Deck_draw_def case_prod_unfold)
  next
    case False
    have "take (length cs - Suc (length ps)) (butlast cs) = take (length cs - Suc (length ps)) cs"
      by (simp add: butlast_conv_take)
    then show ?thesis using False Cons.IH [of "butlast cs"]
      by (simp add: Deck_draw_def case_prod_unfold Let_def)
  qed
qed

lemma deal_round_length: "length (snd (deal_round cs ps)) = length ps"
  by (induction ps arbitrary: cs) (simp_all add: case_prod_unfold Let_def)

lemma deal_round_hands:
  "None \<notin> set cs \<Longrightarrow> length ps \<le> length cs \<Longrightarrow>
     map (\<lambda>p. length (hand p)) (snd (deal_round cs ps)) = map (\<lambda>p. Suc (length (hand p))) ps"
proof (induction ps arbitrary: cs)
  case Nil
  then show ?case by simp
next
  case (Cons p ps)
  then have ne: "cs \<noteq> []" by auto
  then have "last cs \<in> set cs" by simp
  with Cons.prems obtain c where c: "last cs = Some c" by (cases "last cs") auto
  have "None \<notin> set (butlast cs)" using Cons.prems(1) by (auto dest: in_set_butlastD)
  moreover have "length ps \<le> length (butlast cs)" using Cons.prems(2) by simp
  ultimately have "map (\<lambda>p. length (hand p)) (snd (deal_round (butlast cs) ps)) =
      map (\<lambda>p. Suc (length (hand p))) ps" by (rule Cons.IH)
  then show ?case using ne c by (simp add: Deck_draw_def case_prod_unfold receiveCard_def Let_def)
qed

lemma deal_round_mset:
  "None \<notin> set cs \<Longrightarrow>
     mset (fst (deal_round cs ps)) + image_mset Some (mset (hands (snd (deal_round cs ps)))) =
     mset cs + image_mset Some (mset (hands ps))"
proof (induction ps arbitrary: cs)
  case Nil
  then show ?case by simp
next
  case (Cons p ps)
  show ?case
  proof (cases "cs = []")
    case True
    then show ?thesis using Cons.IH [of "[]"]
      by (simp add: Deck_draw_def case_prod_unfold receiveCard_def hands_def Let_def)
  next
    case False
    then have "last cs \<in> set cs" by simp
    with Cons.prems obtain c where c: "last cs = Some c" by (cases "last cs") auto
    have "None \<notin> set (butlast cs)" using Cons.prems(1) by (auto dest: in_set_butlastD)
    from Cons.IH [OF this] mset_butlast_last [OF False] c False
    show ?thesis
      by (simp add: Deck_draw_def case_prod_unfold receiveCard_def hands_def Let_def)
  qed
qed

lemma deal_round_None: "None \<notin> set cs \<Longrightarrow> None \<notin> set (fst (deal_round cs ps))"
  by (auto simp: deal_round_deck dest: in_set_takeD)

lemma deal_rounds_deck: "fst (deal_rounds n cs ps) = take (length cs - n * length ps) cs"
proof (induction n arbitrary: cs ps)
  case 0
  then show ?case by simp
next
  case (Suc n)
  obtain cs' ps' where r: "deal_round cs ps = (cs', ps')" by (cases "deal_round cs ps")
  have cs': "cs' = take (length cs - length ps) cs" using deal_round_deck [of cs ps] r by simp
  have ps': "length ps' = length ps" using deal_round_length [of cs ps] r by simp
  have "min (length cs - length ps - n * length ps) (length cs - length ps) =
      length cs - Suc n * length ps" by simp
  then have "take (length cs' - n * length ps') cs' = take (length cs - Suc n * length ps) cs"
    unfolding cs' ps' by (simp only: take_take length_take min.idem min_absorb2 diff_le_self)
  then show ?case using r Suc.IH [of cs' ps'] by simp
qed

lemma deal_rounds_length: "length (snd (deal_rounds n cs ps)) = length ps"
proof (induction n arbitrary: cs ps)
  case 0
  then show ?case by simp
next
  case (Suc n)
  obtain cs' ps' where r: "deal_round cs ps = (cs', ps')" by (cases "deal_round cs ps")
  have ps': "length ps' = length ps" using deal_round_length [of cs ps] r by simp
  then show ?case using r Suc.IH [of cs' ps'] by simp
qed

lemma deal_rounds_hands:
  "None \<notin> set cs \<Longrightarrow> n * length ps \<le> length cs \<Longrightarrow>
     map (\<lambda>p. length (hand p)) (snd (deal_rounds n cs ps)) = map (\<lambda>p. length (hand p) + n) ps"
proof (induction n arbitrary: cs ps)
  case 0
  then show ?case by simp
next
  case (Suc n)
  obtain cs' ps' where r: "deal_round cs ps = (cs', ps')" by (cases "deal_round cs ps")
  have cs': "cs' = take (length cs - length ps) cs" using deal_round_deck [of cs ps] r by simp
  have ps': "length ps' = length ps" using deal_round_length [of cs ps] r by simp
  have le: "length ps \<le> length cs" using Suc.prems(2) by simp
  have h: "map (\<lambda>p. length (hand p)) ps' = map (\<lambda>p. Suc (length (hand p))) ps"
    using deal_round_hands [OF Suc.prems(1) le] r by simp
  have n: "None \<notin> set cs'" using deal_round_None [OF Suc.prems(1), of ps] r by simp
  have "n * length ps' \<le> length cs'" using Suc.prems(2) unfolding cs' ps' by simp
  from Suc.IH [OF n this]
  have "map (\<lambda>p. length (hand p)) (snd (deal_rounds n cs' ps')) =
      map (\<lambda>k. k + n) (map (\<lambda>p. length (hand p)) ps')" by (simp add: comp_def)
  also have "\<dots> = map (\<lambda>p. length (hand p) + Suc n) ps" unfolding h by (simp add: comp_def)
  finally show ?case using r by simp
qed

lemma deal_rounds_mset:
  "None \<notin> set cs \<Longrightarrow>
     mset (fst (deal_rounds n cs ps)) + image_mset Some (mset (hands (snd (deal_rounds n cs ps)))) =
     mset cs + image_mset Some (mset (hands ps))"
proof (induction n arbitrary: cs ps)
  case 0
  then show ?case by simp
next
  case (Suc n)
  obtain cs' ps' where r: "deal_round cs ps = (cs', ps')" by (cases "deal_round cs ps")
  have n: "None \<notin> set cs'" using deal_round_None [OF Suc.prems, of ps] r by simp
  from Suc.IH [OF n, of ps'] deal_round_mset [OF Suc.prems, of ps] r
  show ?case by simp
qed

lemma hands_no_cards: "hands (map (\<lambda>p. p\<lparr>hand := []\<rparr>) ps) = []"
  by (induction ps) (simp_all add: hands_def)

lemma init_deal:
  assumes N: "None \<notin> set (deck g)" and L: "29 \<le> length (deck g)"
    and P: "length (players g) = 4"
  shows "map (\<lambda>p. length (hand p)) (players (init rnd g)) = [7, 7, 7, 7]"
    and "length (deck (init rnd g)) = length (deck g) - 29"
    and "length (discardPile (init rnd g)) = 1"
    and "all_cards (init rnd g) = mset (deck g)"
    and "currentPlayerIndex (init rnd g) = int (rnd (randomCalls g + (length (deck g) - 1)) mod 4)"
    and "gameOver (init rnd g) = gameOver g"
    and "direction (init rnd g) = direction g"
proof -
  obtain cs0 k where sh: "Deck_shuffle rnd (randomCalls g) (deck g) = (cs0, k)"
    by (cases "Deck_shuffle rnd (randomCalls g) (deck g)")
  have m0: "mset cs0 = mset (deck g)" using Deck_shuffle_mset [of rnd "randomCalls g" "deck g"] sh
    by simp
  then have l0: "length cs0 = length (deck g)" by (rule mset_eq_length)
  have n0: "None \<notin> set cs0" using N mset_eq_setD [OF m0] by simp
  have k: "k = randomCalls g + (length (deck g) - 1)"
    using Deck_shuffle_calls [of rnd "randomCalls g" "deck g"] sh by simp
  define ps0 where "ps0 = map (\<lambda>p. p\<lparr>hand := []\<rparr>) (players g)"
  have lp0: "length ps0 = 4" using P by (simp add: ps0_def)
  have h0: "hands ps0 = []" unfolding ps0_def by (rule hands_no_cards)
  obtain cs1 ps1 where d: "deal_rounds 7 cs0 ps0 = (cs1, ps1)" by (cases "deal_rounds 7 cs0 ps0")
  have cs1: "cs1 = take (length cs0 - 28) cs0" using deal_rounds_deck [of 7 cs0 ps0] d lp0 by simp
  have l1: "length cs1 = length (deck g) - 28" using cs1 l0 by simp
  then have ne1: "cs1 \<noteq> []" using L by auto
  have lp1: "length ps1 = 4" using deal_rounds_length [of 7 cs0 ps0] d lp0 by simp
  have "7 * length ps0 \<le> length cs0" using lp0 l0 L by simp
  from deal_rounds_hands [OF n0 this] d
  have "map (\<lambda>p. length (hand p)) ps1 = map (\<lambda>p. length (hand p) + 7) ps0" by simp
  also have "\<dots> = map (\<lambda>p. 7) (players g)" by (simp add: ps0_def comp_def)
  also have "\<dots> = [7, 7, 7, 7]" using P by (simp add: map_replicate_const numeral_eq_Suc)
  finally have h1: "map (\<lambda>p. length (hand p)) ps1 = [7, 7, 7, 7]" .
  have m1: "mset cs1 + image_mset Some (mset (hands ps1)) = mset (deck g)"
    using deal_rounds_mset [OF n0, of 7 ps0] d h0 m0 by simp
  have i: "init rnd g = g\<lparr>deck := butlast cs1, players := ps1, discardPile := [last cs1],
      currentPlayerIndex := int (rnd k mod 4), randomCalls := Suc k\<rparr>"
    using sh d ne1 by (simp add: init_def Let_def ps0_def Deck_draw_def)
  show "map (\<lambda>p. length (hand p)) (players (init rnd g)) = [7, 7, 7, 7]"
    using i h1 by simp
  show "length (deck (init rnd g)) = length (deck g) - 29" using i l1 by simp
  show "length (discardPile (init rnd g)) = 1" using i by simp
  show "all_cards (init rnd g) = mset (deck g)"
    using i m1 mset_butlast_last [OF ne1] by (simp add: all_cards_def)
  show "currentPlayerIndex (init rnd g) = int (rnd (randomCalls g + (length (deck g) - 1)) mod 4)"
    using i k by simp
  show "gameOver (init rnd g) = gameOver g" using i by simp
  show "direction (init rnd g) = direction g" using i by simp
qed

lemma length_Deck_reset: "length Deck_reset = 54"
  by (simp add: Deck_reset_def SUITS_def VALUES_def)

lemma init_players_length: "length (players (init rnd g)) = length (players g)"
  by (simp add: init_def Let_def case_prod_unfold deal_rounds_length)

lemma Game_all_cards:
  "all_cards (Game rnd) = mset (map Some Deck_reset)" "length (players (Game rnd)) = 4"
proof -
  let ?g = "\<lparr>deck = map Some Deck_reset,
        players = [Player 0 ''You'', Player 1 ''Player 1'', Player 2 ''Player 2'',
                   Player 3 ''Player 3''],
        discardPile = [], currentPlayerIndex = 0, direction = 1, gameOver = False,
        winnerText = [], randomCalls = 0\<rparr>"
  have "None \<notin> set (deck ?g)" by auto
  moreover have "29 \<le> length (deck ?g)" by (simp add: length_Deck_reset)
  moreover have "length (players ?g) = 4" by simp
  ultimately have "all_cards (init rnd ?g) = mset (deck ?g)" by (rule init_deal(4))
  then show "all_cards (Game rnd) = mset (map Some Deck_reset)" by (simp add: Game_def)
  show "length (players (Game rnd)) = 4" by (simp add: Game_def init_players_length)
qed

lemma reachable_all_cards:
  "reachable rnd g \<Longrightarrow>
     all_cards g = mset (map Some Deck_reset) \<and> length (players g) = 4"
proof (induction rule: reachable.induct)
  case start
  then show ?case by (simp add: Game_all_cards)
next
  case (play g seat p i)
  then have "None \<notin># all_cards g" by auto
  from handleCardPlay_all_cards [OF this play.hyps(2), of i rnd] play show ?case by simp
next
  case (click_deck g)
  then have "None \<notin># all_cards g" by auto
  from handleDrawCard_all_cards [OF this, of rnd] click_deck show ?case by simp
next
  case (draw g seat p)
  then have "None \<notin># all_cards g" by auto
  from executeDraw_all_cards [OF this draw.hyps(2), of rnd] draw show ?case by simp
next
  case (ai g)
  then have "None \<notin># all_cards g" by auto
  from playAiTurn_all_cards [OF this, of rnd] ai show ?case by simp
qed

lemma recycleDeck_recycles:
  assumes "2 \<le> length (discardPile g)"
  shows "discardPile (recycleDeck rnd g) = [last (discardPile g)]"
    and "mset (deck (recycleDeck rnd g)) = mset (deck g) + mset (butlast (discardPile g))"
    and "randomCalls (recycleDeck rnd g) =
           randomCalls g + (length (deck g) + length (discardPile g) - 2)"
  using assms
  by (simp_all add: recycleDeck_def Let_def case_prod_unfold Deck_shuffle_mset
      Deck_shuffle_calls Deck_addCards_def)

text \<open>The state in which \<open>forceDraw\<close> and \<open>executeDraw\<close> pop the deck.\<close>

lemma refill:
  assumes N: "None \<notin> set (deck g)" "None \<notin> set (discardPile g)"
    and L: "Suc n \<le> length (deck g) + (length (discardPile g) - 1)"
    and g1_def: "g1 = (if Deck_count (deck g) = 0 then recycleDeck rnd g else g)"
  shows "deck g1 \<noteq> [] \<and> None \<notin> set (deck g1) \<and> None \<notin> set (discardPile g1) \<and>
         Suc n \<le> length (deck g1) + (length (discardPile g1) - 1)"
proof (cases "deck g = []")
  case False
  then show ?thesis using N L by (simp add: g1_def Deck_count_def)
next
  case True
  with L have d: "2 \<le> length (discardPile g)" by simp
  then have ne: "discardPile g \<noteq> []" by auto
  have g1: "g1 = recycleDeck rnd g" using True by (simp add: g1_def Deck_count_def)
  have m: "mset (deck g1) = mset (butlast (discardPile g))"
    using recycleDeck_recycles(2) [OF d, of rnd] True g1 by simp
  have p: "discardPile g1 = [last (discardPile g)]"
    using recycleDeck_recycles(1) [OF d, of rnd] g1 by simp
  have len: "length (deck g1) = length (discardPile g) - 1"
    using mset_eq_length [OF m] by simp
  from m have s: "set (deck g1) = set (butlast (discardPile g))" by (rule mset_eq_setD)
  have "deck g1 \<noteq> []" using len d by auto
  moreover have "None \<notin> set (deck g1)" using s N(2) by (auto dest: in_set_butlastD)
  moreover have "None \<notin> set (discardPile g1)" using p N(2) last_in_set [OF ne] by auto
  moreover have "Suc n \<le> length (deck g1) + (length (discardPile g1) - 1)"
    using len p L True by simp
  ultimately show ?thesis by simp
qed

lemma forceDraw_loop_draws:
  assumes "None \<notin> set (deck g)" and "None \<notin> set (discardPile g)"
    and "js_get (players g) v = Some pv"
    and "n \<le> length (deck g) + (length (discardPile g) - 1)"
  shows "\<exists>drawn g'. forceDraw_loop rnd v n g = (Returned (), g') \<and> length drawn = n \<and>
           players g' = (players g)[nat v := pv\<lparr>hand := hand pv @ drawn\<rparr>] \<and>
           currentPlayerIndex g' = currentPlayerIndex g \<and> direction g' = direction g \<and>
           gameOver g' = gameOver g"
  using assms
proof (induction n arbitrary: g pv)
  case 0
  from "0.prems"(3) have "(players g)[nat v := pv] = players g" by (simp add: js_get_Some)
  then show ?case by simp
next
  case (Suc n)
  define g1 where "g1 = (if Deck_count (deck g) = 0 then recycleDeck rnd g else g)"
  from refill [OF Suc.prems(1,2,4) g1_def]
  have r: "deck g1 \<noteq> []" "None \<notin> set (deck g1)" "None \<notin> set (discardPile g1)"
    "Suc n \<le> length (deck g1) + (length (discardPile g1) - 1)" by simp_all
  have f1: "players g1 = players g" "currentPlayerIndex g1 = currentPlayerIndex g"
    "direction g1 = direction g" "gameOver g1 = gameOver g"
    by (simp_all add: g1_def)
  from r(1) have "last (deck g1) \<in> set (deck g1)" by simp
  with r(2) obtain c where c: "last (deck g1) = Some c" by (cases "last (deck g1)") auto
  define pv' where "pv' = pv\<lparr>hand := hand pv @ [c]\<rparr>"
  define g2 where "g2 = g1\<lparr>deck := butlast (deck g1), players := (players g)[nat v := pv']\<rparr>"
  have step: "forceDraw_loop rnd v (Suc n) g = forceDraw_loop rnd v n g2"
    using Suc.prems(3) r(1) c f1
    by (simp add: g1_def [symmetric] g2_def pv'_def Let_def Deck_draw_def receiveCard_def)
  from Suc.prems(3) have v: "0 \<le> v" "nat v < length (players g)" by (simp_all add: js_get_Some)
  have "None \<notin> set (deck g2)" using r(2) by (auto simp: g2_def dest: in_set_butlastD)
  moreover have "None \<notin> set (discardPile g2)" using r(3) by (simp add: g2_def)
  moreover have "js_get (players g2) v = Some pv'" using v by (simp add: g2_def js_get_def)
  moreover have "n \<le> length (deck g2) + (length (discardPile g2) - 1)"
    using r(4) by (simp add: g2_def)
  ultimately obtain drawn g' where
    d: "forceDraw_loop rnd v n g2 = (Returned (), g')" "length drawn = n"
      "players g' = (players g2)[nat v := pv'\<lparr>hand := hand pv' @ drawn\<rparr>]"
      "currentPlayerIndex g' = currentPlayerIndex g2" "direction g' = direction g2"
      "gameOver g' = gameOver g2"
    using Suc.IH [of g2 pv'] by blast
  have "players g' = (players g)[nat v := pv\<lparr>hand := hand pv @ (c # drawn)\<rparr>]"
    using d(3) by (simp add: g2_def pv'_def)
  moreover have "length (c # drawn) = Suc n" using d(2) by simp
  moreover have "forceDraw_loop rnd v (Suc n) g = (Returned (), g')"
    using step d(1) by (simp only:)
  moreover have "currentPlayerIndex g' = currentPlayerIndex g" "direction g' = direction g"
    "gameOver g' = gameOver g" using d(4,5,6) f1 by (simp_all add: g2_def)
  ultimately show ?case by blast
qed

subsection \<open>The turn pointer\<close>

lemma wrap_mod:
  fixes c d :: int
  assumes "0 \<le> c" "c \<le> 3" "d = 1 \<or> d = - 1"
  shows "(let i0 = c + d; i1 = (if i0 \<ge> 4 then 0 else i0) in if i1 < 0 then 3 else i1)
           = (c + d) mod 4"
proof -
  from assms(1,2) have "c = 0 \<or> c = 1 \<or> c = 2 \<or> c = 3" by auto
  with assms(3) show ?thesis by (auto simp: Let_def)
qed

lemma advancePointer_mod:
  assumes "0 \<le> currentPlayerIndex g" "currentPlayerIndex g \<le> 3"
    "direction g = 1 \<or> direction g = - 1"
  shows "advancePointer g =
           g\<lparr>currentPlayerIndex := (currentPlayerIndex g + direction g) mod 4\<rparr>"
  using wrap_mod [OF assms] by (simp add: advancePointer_def Let_def)

lemma nextTurn_advances:
  assumes "\<not> gameOver g" "js_get (players g) (currentPlayerIndex g) = Some p" "hand p \<noteq> []"
    "0 \<le> currentPlayerIndex g" "currentPlayerIndex g \<le> 3"
    "direction g = 1 \<or> direction g = - 1"
  shows "nextTurn g =
           (Returned (), g\<lparr>currentPlayerIndex := (currentPlayerIndex g + direction g) mod 4\<rparr>)"
  using wrap_mod [OF assms(4,5,6)] assms(1,2,3) by (simp add: nextTurn_def Let_def)

subsection \<open>The claims\<close>

text \<open>
  C2. With a card on top of the discard pile, \<open>isValidMove\<close> returns for every candidate
  card, and it returns true exactly when the top card is a Joker or a Jack, or the
  candidate is a Joker or a Jack, or the two cards have the same value, or they have the
  same suit.
\<close>

theorem isValidMove_iff:
  "isValidMove (g\<lparr>discardPile := pile @ [Some topc]\<rparr>) (Some c) =
     Returned (cvalue topc = ''X'' \<or> cvalue topc = ''J''
               \<or> cvalue c = ''X'' \<or> cvalue c = ''J''
               \<or> cvalue c = cvalue topc
               \<or> suit c = suit topc)"
  by (simp add: isValidMove_def getTopCard_def js_get_def)

text \<open>
  C1. Universe conservation. In every state that can be reached from the constructed
  game by playing a card of a hand, drawing, and turns of the automatic player (with the
  forced draws, the pass-around and the recycling of the discard pile they trigger), the
  deck, the discard pile and the four hands together hold, as a multiset, exactly the
  cards of the fixed universe: 54 cards, all different but for the two Jokers.
\<close>

theorem universe_conservation:
  "reachable rnd g \<Longrightarrow>
     mset (deck g) + mset (discardPile g) + mset (map Some (concat (map hand (players g))))
       = mset (map Some Deck_reset)
     \<and> length (players g) = 4
     \<and> length Deck_reset = 54
     \<and> distinct (butlast Deck_reset)
     \<and> count (mset Deck_reset) (Card ''J'' ''X'') = 2"
proof -
  assume "reachable rnd g"
  from reachable_all_cards [OF this]
  have "mset (deck g) + mset (discardPile g) + mset (map Some (concat (map hand (players g))))
       = mset (map Some Deck_reset)" and "length (players g) = 4"
    by (simp_all add: all_cards_def hands_def)
  moreover have "length Deck_reset = 54" by (rule length_Deck_reset)
  moreover have "distinct (butlast Deck_reset)" by code_simp
  moreover have "count (mset Deck_reset) (Card ''J'' ''X'') = 2" by code_simp
  ultimately show ?thesis by simp
qed

text \<open>The state after the first seat has drawn a card in a new game is such a state.\<close>

theorem universe_conservation_witness:
  "reachable rnd0 (snd (handleDrawCard rnd0 (Game rnd0)))
   \<and> mset (deck (snd (handleDrawCard rnd0 (Game rnd0))))
       + mset (discardPile (snd (handleDrawCard rnd0 (Game rnd0))))
       + mset (map Some (concat (map hand (players (snd (handleDrawCard rnd0 (Game rnd0)))))))
       = mset (map Some Deck_reset)
   \<and> length (hand (players (snd (handleDrawCard rnd0 (Game rnd0))) ! 0)) = 8"
proof -
  have r: "reachable rnd0 (snd (handleDrawCard rnd0 (Game rnd0)))"
    by (rule reachable.click_deck) (rule reachable.start)
  have "length (hand (players (snd (handleDrawCard rnd0 (Game rnd0))) ! 0)) = 8"
    by code_simp
  with universe_conservation [OF r] r show ?thesis by simp
qed

text \<open>
  C3. A play of the last card of a hand ends the game at once. When the seat holds a
  single card and that card may be played, \<open>handleCardPlay\<close> returns true in the state
  in which the hand is empty, the card is on the discard pile, the game is over and the
  banner names that seat. Nothing else has changed, whatever the card: the deck, the
  other hands, the current seat and the direction are as before, so no pointer advance,
  forced draw, direction flip or pass-around has taken place.
\<close>

theorem winning_play_skips_effect:
  assumes "\<not> gameOver g" and "js_get (players g) seat = Some p" and "hand p = [c]"
    and "isValidMove g (Some c) = Returned True"
  shows "handleCardPlay rnd g seat 0 =
           (Returned (Some True),
            g\<lparr>players := (players g)[nat seat := p\<lparr>hand := []\<rparr>],
              discardPile := discardPile g @ [Some c],
              gameOver := True,
              winnerText := name p @ '' Heeft Gewonnen!''\<rparr>)"
proof -
  have c: "js_get (hand p) 0 = Some c" using assms(3) by (simp add: js_get_def)
  have q: "snd (playCard p 0) = p\<lparr>hand := []\<rparr>"
    using assms(3) by (simp add: playCard_def splice1_def)
  from assms(2) have "nat seat < length (players g)" "0 \<le> seat" by (simp_all add: js_get_Some)
  then have w: "js_get ((players g)[nat seat := p\<lparr>hand := []\<rparr>]) seat = Some (p\<lparr>hand := []\<rparr>)"
    by (simp add: js_get_def)
  show ?thesis using assms(1,2,4) c q w
    by (simp add: handleCardPlay_def handleWin_def Let_def)
qed

text \<open>Seat 0 wins with a 2: seat 1 does not draw and the turn stays where it was.\<close>

theorem winning_play_skips_effect_witness:
  "\<not> gameOver endgame0
   \<and> js_get (players endgame0) 0 = Some ((Player 0 ''You'')\<lparr>hand := [Card ''H'' ''2'']\<rparr>)
   \<and> isValidMove endgame0 (Some (Card ''H'' ''2'')) = Returned True
   \<and> handleCardPlay rnd0 endgame0 0 0 =
         (Returned (Some True),
          endgame0\<lparr>players := (players endgame0)[0 := Player 0 ''You''],
                   discardPile := [Some (Card ''H'' ''3''), Some (Card ''H'' ''2'')],
                   gameOver := True,
                   winnerText := ''You Heeft Gewonnen!''\<rparr>)"
proof -
  have 1: "\<not> gameOver endgame0" by (simp add: endgame0_def)
  have 2: "js_get (players endgame0) 0 = Some ((Player 0 ''You'')\<lparr>hand := [Card ''H'' ''2'']\<rparr>)"
    by (simp add: endgame0_def js_get_def)
  have 3: "hand ((Player 0 ''You'')\<lparr>hand := [Card ''H'' ''2'']\<rparr>) = [Card ''H'' ''2'']" by simp
  have 4: "isValidMove endgame0 (Some (Card ''H'' ''2'')) = Returned True"
    by (simp add: endgame0_def isValidMove_def getTopCard_def js_get_def Card_def)
  from winning_play_skips_effect [OF 1 2 3 4, of rnd0] 1 2 4
  show ?thesis by (simp add: endgame0_def Player_def)
qed

text \<open>
  C4. A play by a seat that is not the current player is not refused. In the new game
  dealt with \<open>rnd1\<close> it is the turn of seat 1 and the 2 of diamonds (R2) lies on the
  discard pile. \<open>handleCardPlay\<close> for seat 0 and its first card, the 2 of hearts,
  returns true: the card goes to the discard pile, seat 2 draws two cards and the turn
  passes to seat 3.
\<close>

theorem play_out_of_turn:
  "currentPlayerIndex (Game rnd1) = 1
   \<and> map length (map hand (players (Game rnd1))) = [7, 7, 7, 7]
   \<and> fst (handleCardPlay rnd1 (Game rnd1) 0 0) = Returned (Some True)
   \<and> map length (map hand (players (snd (handleCardPlay rnd1 (Game rnd1) 0 0)))) = [6, 7, 9, 7]
   \<and> discardPile (snd (handleCardPlay rnd1 (Game rnd1) 0 0))
       = [Some (Card ''R'' ''2''), Some (Card ''H'' ''2'')]
   \<and> currentPlayerIndex (snd (handleCardPlay rnd1 (Game rnd1) 0 0)) = 3"
  by code_simp

text \<open>
  C7. A draw is not refused once the game is over. After seat 0 has won, it is still
  the current seat; \<open>handleDrawCard\<close> then takes a card from the deck into the hand of
  seat 0.
\<close>

theorem draw_after_game_over:
  "gameOver finished0
   \<and> currentPlayerIndex finished0 = 0
   \<and> length (deck finished0) = 31
   \<and> hand (players finished0 ! 0) = []
   \<and> fst (handleDrawCard rnd0 finished0) = Returned ()
   \<and> length (deck (snd (handleDrawCard rnd0 finished0))) = 30
   \<and> hand (players (snd (handleDrawCard rnd0 finished0)) ! 0) = [Card ''J'' ''X'']"
  by code_simp

text \<open>
  C5. The forced draw of a 2 and of a Joker. The current seat plays a 2 (\<open>n = 2\<close>) or a
  Joker (\<open>n = 5\<close>) that may be played and is not its last card, in a game of four
  seats whose deck and discard pile hold cards only. If the deck together with the
  discard pile as it was before the play (the cards that can be recycled once the played
  card lies on top) holds at least \<open>n\<close> cards, then the play returns true and changes the
  hands of two seats only: the acting seat has lost the played card, and the seat after
  it in the direction of play, modulo 4, has gained exactly \<open>n\<close> cards at the end of its
  hand. The other two hands are as before.
\<close>

theorem force_draw_next_seat:
  assumes P: "length (players g) = 4"
    and D: "direction g = 1 \<or> direction g = - 1"
    and I: "0 \<le> currentPlayerIndex g" "currentPlayerIndex g \<le> 3"
    and N: "None \<notin> set (deck g)" "None \<notin> set (discardPile g)"
    and G: "\<not> gameOver g"
    and C: "js_get (hand (players g ! nat (currentPlayerIndex g))) i = Some c"
    and V: "isValidMove g (Some c) = Returned True"
    and H: "2 \<le> length (hand (players g ! nat (currentPlayerIndex g)))"
    and E: "cvalue c = ''2'' \<and> n = 2 \<or> cvalue c = ''X'' \<and> n = 5"
    and L: "n \<le> length (deck g) + length (discardPile g)"
  shows "\<exists>drawn. length drawn = n \<and>
           fst (handleCardPlay rnd g (currentPlayerIndex g) i) = Returned (Some True) \<and>
           players (snd (handleCardPlay rnd g (currentPlayerIndex g) i)) =
             (players g)
               [nat (currentPlayerIndex g) :=
                  (players g ! nat (currentPlayerIndex g))
                    \<lparr>hand := take (nat i) (hand (players g ! nat (currentPlayerIndex g))) @
                             drop (Suc (nat i)) (hand (players g ! nat (currentPlayerIndex g)))\<rparr>,
                nat ((currentPlayerIndex g + direction g) mod 4) :=
                  (players g ! nat ((currentPlayerIndex g + direction g) mod 4))
                    \<lparr>hand := hand (players g ! nat ((currentPlayerIndex g + direction g) mod 4))
                             @ drawn\<rparr>]"
proof -
  define cur where "cur = currentPlayerIndex g"
  define v where "v = (cur + direction g) mod 4"
  define a where "a = players g ! nat cur"
  define pv where "pv = players g ! nat v"
  have cur: "0 \<le> cur" "cur \<le> 3" using I by (simp_all add: cur_def)
  have v: "0 \<le> v" "v < 4" by (simp_all add: v_def)
  have "cur = 0 \<or> cur = 1 \<or> cur = 2 \<or> cur = 3" using cur by auto
  with D have vc: "nat v \<noteq> nat cur" by (auto simp: v_def)
  have ja: "js_get (players g) cur = Some a" using cur P by (simp add: js_get_def a_def)
  from C have i: "0 \<le> i" "nat i < length (hand a)" and c: "c = hand a ! nat i"
    by (simp_all add: js_get_Some a_def cur_def)
  define a' where "a' = a\<lparr>hand := take (nat i) (hand a) @ drop (Suc (nat i)) (hand a)\<rparr>"
  have pc: "snd (playCard a i) = a'" using playCard_in_range [OF i] by (simp add: a'_def)
  have "length (hand a') = length (hand a) - 1" using i by (simp add: a'_def)
  with H have ne: "length (hand a') \<noteq> 0" by (simp add: a_def cur_def)
  define g1 where "g1 = g\<lparr>players := (players g)[nat cur := a'],
                           discardPile := discardPile g @ [Some c]\<rparr>"
  have play: "handleCardPlay rnd g cur i = specialEffect rnd g1 c"
    using G ja C V pc ne
    by (simp add: handleCardPlay_def Let_def g1_def a_def [symmetric] cur_def [symmetric])
  define ga where "ga = g1\<lparr>currentPlayerIndex := v\<rparr>"
  have adv: "advancePointer g1 = ga"
    using advancePointer_mod [of g1] cur D by (simp add: g1_def ga_def v_def cur_def)
  have eff: "specialEffect rnd g1 c = nextTurn_true (forceDraw_loop rnd v n ga)"
    using E adv by (auto simp: specialEffect_def forceDraw_def ga_def)
  have "None \<notin> set (deck ga)" using N(1) by (simp add: ga_def g1_def)
  moreover have "None \<notin> set (discardPile ga)" using N(2) by (simp add: ga_def g1_def)
  moreover have "js_get (players ga) v = Some pv"
    using v vc P by (simp add: ga_def g1_def js_get_def pv_def)
  moreover have "n \<le> length (deck ga) + (length (discardPile ga) - 1)"
    using L by (simp add: ga_def g1_def)
  ultimately obtain drawn g3 where
    d: "forceDraw_loop rnd v n ga = (Returned (), g3)" "length drawn = n"
      "players g3 = (players ga)[nat v := pv\<lparr>hand := hand pv @ drawn\<rparr>]"
      "currentPlayerIndex g3 = currentPlayerIndex ga" "direction g3 = direction ga"
      "gameOver g3 = gameOver ga"
    using forceDraw_loop_draws [of ga v pv n rnd] by blast
  have n2: "2 \<le> n" using E by auto
  have "js_get (players g3) (currentPlayerIndex g3) = Some (pv\<lparr>hand := hand pv @ drawn\<rparr>)"
    using d(3,4) v P by (simp add: ga_def g1_def js_get_def)
  moreover have "drawn \<noteq> []" using d(2) n2 by auto
  moreover have "\<not> gameOver g3" using d(6) G by (simp add: ga_def g1_def)
  ultimately have nt: "fst (nextTurn g3) = Returned ()"
    by (simp add: nextTurn_def Let_def)
  obtain g4 where g4: "nextTurn g3 = (Returned (), g4)"
    using nt by (cases "nextTurn g3") auto
  have "players g4 = players g3" using nextTurn_piles(2) [of g3] g4 by simp
  then have "players g4 = (players g)[nat cur := a', nat v := pv\<lparr>hand := hand pv @ drawn\<rparr>]"
    using d(3) by (simp add: ga_def g1_def)
  moreover have "handleCardPlay rnd g cur i = (Returned (Some True), g4)"
    using play eff d(1) g4 by (simp add: nextTurn_true_def)
  ultimately show ?thesis using d(2)
    unfolding a'_def a_def pv_def v_def cur_def by (intro exI [of _ drawn]) simp
qed

text \<open>
  In the new game dealt with \<open>rnd0\<close>, seat 0 plays the 2 of hearts on the 2 of diamonds
  and seat 1 draws two cards.
\<close>

theorem force_draw_next_seat_witness:
  "length (players (Game rnd0)) = 4
   \<and> currentPlayerIndex (Game rnd0) = 0
   \<and> direction (Game rnd0) = 1
   \<and> \<not> gameOver (Game rnd0)
   \<and> js_get (hand (players (Game rnd0) ! nat (currentPlayerIndex (Game rnd0)))) 0
        = Some (Card ''H'' ''2'')
   \<and> isValidMove (Game rnd0) (Some (Card ''H'' ''2'')) = Returned True
   \<and> length (hand (players (Game rnd0) ! nat (currentPlayerIndex (Game rnd0)))) = 7
   \<and> length (deck (Game rnd0)) = 25
   \<and> (\<exists>drawn. length drawn = 2 \<and>
         fst (handleCardPlay rnd0 (Game rnd0) (currentPlayerIndex (Game rnd0)) 0)
           = Returned (Some True) \<and>
         players (snd (handleCardPlay rnd0 (Game rnd0) (currentPlayerIndex (Game rnd0)) 0)) =
           (players (Game rnd0))
             [nat (currentPlayerIndex (Game rnd0)) :=
                (players (Game rnd0) ! nat (currentPlayerIndex (Game rnd0)))
                  \<lparr>hand := take (nat 0)
                             (hand (players (Game rnd0) ! nat (currentPlayerIndex (Game rnd0)))) @
                           drop (Suc (nat 0))
                             (hand (players (Game rnd0) ! nat (currentPlayerIndex (Game rnd0))))\<rparr>,
              nat ((currentPlayerIndex (Game rnd0) + direction (Game rnd0)) mod 4) :=
                (players (Game rnd0)
                   ! nat ((currentPlayerIndex (Game rnd0) + direction (Game rnd0)) mod 4))
                  \<lparr>hand := hand (players (Game rnd0)
                                   ! nat ((currentPlayerIndex (Game rnd0) + direction (Game rnd0)) mod 4))
                           @ drawn\<rparr>])"
proof -
  have P: "length (players (Game rnd0)) = 4" by code_simp
  have I: "currentPlayerIndex (Game rnd0) = 0" by code_simp
  have D: "direction (Game rnd0) = 1" by code_simp
  have N1: "None \<notin> set (deck (Game rnd0))" by code_simp
  have N2: "None \<notin> set (discardPile (Game rnd0))" by code_simp
  have G: "\<not> gameOver (Game rnd0)" by code_simp
  have C: "js_get (hand (players (Game rnd0) ! nat (currentPlayerIndex (Game rnd0)))) 0
        = Some (Card ''H'' ''2'')" by code_simp
  have V: "isValidMove (Game rnd0) (Some (Card ''H'' ''2'')) = Returned True" by code_simp
  have H: "length (hand (players (Game rnd0) ! nat (currentPlayerIndex (Game rnd0)))) = 7"
    by code_simp
  have L: "length (deck (Game rnd0)) = 25" by code_simp
  have E: "cvalue (Card ''H'' ''2'') = ''2'' \<and> (2::nat) = 2 \<or>
           cvalue (Card ''H'' ''2'') = ''X'' \<and> (2::nat) = 5" by (simp add: Card_def)
  from force_draw_next_seat [of "Game rnd0" 0 "Card ''H'' ''2''" 2 rnd0, OF P _ _ _ N1 N2 G C V _ E]
    P I D G C V H L
  show ?thesis by simp
qed

end
